theory Spec2Isabelle
  imports Main
begin

section \<open>The registration form of App.tsx: validation, submission, table\<close>

text \<open>
  The application holds a form (react-hook-form with a zod schema as resolver) and a
  table of submitted users (a React state variable). This theory embeds the schema
  \<open>formSchema\<close>, the resolver built from it, the handlers \<open>onSubmit\<close> and
  \<open>onError\<close>, the wiring of the controls to the form fields and the body of the
  table, and proves properties of the pipeline from a field edit to a table row.

  The libraries are modelled as the versions the repository declares behave (zod 4,
  react-hook-form 7 with its zod resolver, date-fns 4) on the calls the source makes.
  zod 4 reads the \<open>message\<close> given to a check; it does not read the key
  \<open>required_error\<close> that the schema passes to \<open>z.date\<close> and \<open>z.string\<close>, so a
  value of the wrong type, \<open>undefined\<close> included, gets zod's default English message.
\<close>

subsection \<open>JavaScript values held by the form\<close>

text \<open>
  A \<open>Date\<close> object holds a time value: a number of milliseconds since the epoch, or
  NaN (an invalid date). The values the controls of the form can store are strings,
  booleans, dates and \<open>undefined\<close>. Strings are lists of code units; \<open>length\<close> is
  JavaScript's \<open>.length\<close>.
\<close>

datatype jsdate = Date int | InvalidDate

datatype jsval = Undefined | Str string | Bool bool | DateVal jsdate

text \<open>\<open>Number.prototype.toString\<close> on an integer (decimal digits, a minus sign first).\<close>

fun toString_nat :: "nat \<Rightarrow> string" where
  "toString_nat n =
     (if n < 10 then [''0123456789'' ! n]
      else toString_nat (n div 10) @ [''0123456789'' ! (n mod 10)])"

definition Number_toString :: "int \<Rightarrow> string" where
  "Number_toString i =
     (if i < 0 then CHR ''-'' # toString_nat (nat (- i)) else toString_nat (nat i))"

text \<open>The number a text of decimal digits stands for (used to show that the text
  determines the number).\<close>

definition digit_val :: "char \<Rightarrow> nat" where
  "digit_val c = of_char c - 48"

definition of_digits :: "string \<Rightarrow> nat" where
  "of_digits cs = foldl (\<lambda>a c. 10 * a + digit_val c) 0 cs"

subsection \<open>The zod schema\<close>

text \<open>
  zod reports each failure as an issue: a code, the path of keys to the value and a
  message. \<open>parsedType\<close> names the runtime type of a value in the messages: the
  \<open>typeof\<close> of a primitive, the name of the constructor of an object.
\<close>

datatype ZodIssue = ZodIssue (code: string) (path: "string list") (message: string)

fun parsedType :: "jsval \<Rightarrow> string" where
  "parsedType Undefined = ''undefined''"
| "parsedType (Str s) = ''string''"
| "parsedType (Bool b) = ''boolean''"
| "parsedType (DateVal d) = ''Date''"

text \<open>
  The issue for a value of the wrong type, with the message of zod's English locale.
\<close>

definition invalid_type :: "string \<Rightarrow> jsval \<Rightarrow> ZodIssue" where
  "invalid_type expected v =
     ZodIssue ''invalid_type'' []
       (''Invalid input: expected '' @ expected @ '', received '' @ parsedType v)"

text \<open>
  A field schema parses a value to issues (\<open>Inl\<close>) or to the parsed output (\<open>Inr\<close>).
  \<open>z.string(params)\<close> followed by its checks: a value that is no string gets the
  issue of type and no check runs; on a string the checks all run and each adds its
  issue. The first argument is the \<open>required_error\<close> of the parameters, which the
  parser does not read.
\<close>

definition z_string ::
  "string option \<Rightarrow> (string \<Rightarrow> ZodIssue list) list \<Rightarrow> jsval \<Rightarrow> ZodIssue list + string" where
  "z_string required_error checks v =
     (case v of
        Str s \<Rightarrow>
          (let issues = concat (map (\<lambda>check. check s) checks)
           in if issues = [] then Inr s else Inl issues)
      | _ \<Rightarrow> Inl [invalid_type ''string'' v])"

definition min_check :: "nat \<Rightarrow> string \<Rightarrow> string \<Rightarrow> ZodIssue list" where
  "min_check n msg s = (if length s < n then [ZodIssue ''too_small'' [] msg] else [])"

text \<open>
  zod's email pattern, matched without regard to case:
  \<^verbatim>\<open>^(?!\.)(?!.*\.\.)([A-Z0-9_'+\-\.]*)[A-Z0-9_+-]@([A-Z0-9][A-Z0-9\-]*\.)+[A-Z]{2,}$\<close>
  No class of the pattern contains \<open>@\<close>, so a match has exactly one \<open>@\<close>; no label of
  the domain contains a dot, so the domain splits at its dots.
\<close>

definition is_alpha :: "char \<Rightarrow> bool" where
  "is_alpha c = (let n = (of_char c :: nat) in (65 \<le> n \<and> n \<le> 90) \<or> (97 \<le> n \<and> n \<le> 122))"

definition is_digit :: "char \<Rightarrow> bool" where
  "is_digit c = (let n = (of_char c :: nat) in 48 \<le> n \<and> n \<le> 57)"

definition is_alnum :: "char \<Rightarrow> bool" where
  "is_alnum c = (is_alpha c \<or> is_digit c)"

fun split_on :: "char \<Rightarrow> string \<Rightarrow> string list" where
  "split_on sep [] = [[]]"
| "split_on sep (c # cs) =
     (if c = sep then [] # split_on sep cs
      else (case split_on sep cs of p # ps \<Rightarrow> (c # p) # ps | [] \<Rightarrow> [[c]]))"

fun has_double_dot :: "string \<Rightarrow> bool" where
  "has_double_dot (a # b # cs) = ((a = CHR ''.'' \<and> b = CHR ''.'') \<or> has_double_dot (b # cs))"
| "has_double_dot cs = False"

definition local_part_ok :: "string \<Rightarrow> bool" where
  "local_part_ok l =
     (l \<noteq> [] \<and>
      list_all (\<lambda>c. is_alnum c \<or> c \<in> set ''_'' \<or> c = CHR 0x27 \<or> c \<in> set ''+-.'') l \<and>
      (is_alnum (last l) \<or> last l \<in> set ''_+-''))"

definition label_ok :: "string \<Rightarrow> bool" where
  "label_ok p = (case p of [] \<Rightarrow> False
                 | c # cs \<Rightarrow> is_alnum c \<and> list_all (\<lambda>x. is_alnum x \<or> x = CHR ''-'') cs)"

definition domain_ok :: "string \<Rightarrow> bool" where
  "domain_ok d =
     (let parts = split_on (CHR ''.'') d
      in 2 \<le> length parts \<and> list_all label_ok (butlast parts) \<and>
         2 \<le> length (last parts) \<and> list_all is_alpha (last parts))"

definition emailRegex :: "string \<Rightarrow> bool" where
  "emailRegex s =
     (case s of [] \<Rightarrow> False
      | c # cs \<Rightarrow>
          c \<noteq> CHR ''.'' \<and> \<not> has_double_dot s \<and>
          (case dropWhile (\<lambda>x. x \<noteq> CHR ''@'') s of
             [] \<Rightarrow> False
           | at # d \<Rightarrow> local_part_ok (takeWhile (\<lambda>x. x \<noteq> CHR ''@'') s) \<and> domain_ok d))"

definition email_check :: "string \<Rightarrow> string \<Rightarrow> ZodIssue list" where
  "email_check msg s = (if emailRegex s then [] else [ZodIssue ''invalid_format'' [] msg])"

text \<open>
  \<open>z.date(params)\<close>: the value must be a \<open>Date\<close> whose time value is not NaN; any
  other value, an invalid date included, gets the issue of type. The first argument is
  the \<open>required_error\<close> of the parameters, which the parser does not read.
\<close>

definition z_date :: "string option \<Rightarrow> jsval \<Rightarrow> ZodIssue list + jsdate" where
  "z_date required_error v =
     (case v of
        DateVal (Date t) \<Rightarrow> Inr (Date t)
      | _ \<Rightarrow> Inl [invalid_type ''date'' v])"

definition z_boolean :: "jsval \<Rightarrow> ZodIssue list + bool" where
  "z_boolean v = (case v of Bool b \<Rightarrow> Inr b | _ \<Rightarrow> Inl [invalid_type ''boolean'' v])"

text \<open>\<open>schema.default(d)\<close>: \<open>undefined\<close> parses to the default, any other value is
  parsed by the schema.\<close>

definition z_default :: "(jsval \<Rightarrow> ZodIssue list + 'a) \<Rightarrow> 'a \<Rightarrow> jsval \<Rightarrow> ZodIssue list + 'a" where
  "z_default inner d v = (if v = Undefined then Inr d else inner v)"

text \<open>The object the form passes around: a value per key, \<open>undefined\<close> for a missing key.\<close>

type_synonym FormValues = "string \<Rightarrow> jsval"

record FormData =
  name :: string
  email :: string
  birthDate :: jsdate
  department :: string
  isActive :: bool

text \<open>
  \<open>z.object\<close> parses every key of its shape in the order of declaration, puts the key
  in front of the path of each issue, and succeeds when no key reported an issue.
\<close>

definition at_key :: "string \<Rightarrow> ZodIssue list + 'a \<Rightarrow> ZodIssue list" where
  "at_key k r =
     (case r of Inl issues \<Rightarrow> map (\<lambda>i. ZodIssue (code i) (k # path i) (message i)) issues
      | Inr x \<Rightarrow> [])"

definition formSchema :: "FormValues \<Rightarrow> ZodIssue list + FormData" where
  "formSchema data =
     (let r_name = z_string None [min_check 2 ''Name must be at least 2 characters.'']
                     (data ''name'');
          r_email = z_string None [email_check ''Please enter a valid email address.'']
                      (data ''email'');
          r_birthDate = z_date (Some ''A birth date is required.'') (data ''birthDate'');
          r_department = z_string (Some ''Please select a department.'') []
                           (data ''department'');
          r_isActive = z_default z_boolean False (data ''isActive'')
      in case (r_name, r_email, r_birthDate, r_department, r_isActive) of
           (Inr n, Inr e, Inr b, Inr d, Inr a) \<Rightarrow>
             Inr \<lparr>name = n, email = e, birthDate = b, department = d, isActive = a\<rparr>
         | _ \<Rightarrow>
             Inl (at_key ''name'' r_name @ at_key ''email'' r_email @
                  at_key ''birthDate'' r_birthDate @ at_key ''department'' r_department @
                  at_key ''isActive'' r_isActive))"

subsection \<open>The resolver\<close>

text \<open>
  \<open>zodResolver(formSchema)\<close> runs the schema on the values of the form. On success
  it hands the parsed data on; on failure it turns the issues into one error per
  field: the path joined by dots is the key, and the first issue of a key is kept.
\<close>

datatype FieldError = FieldError (error_type: string) (error_message: string)

type_synonym FieldErrors = "(string \<times> FieldError) list"

fun join_path :: "string list \<Rightarrow> string" where
  "join_path [] = []"
| "join_path [k] = k"
| "join_path (k # ks) = k @ ''.'' @ join_path ks"

fun parseErrorSchema :: "ZodIssue list \<Rightarrow> FieldErrors \<Rightarrow> FieldErrors" where
  "parseErrorSchema [] errors = errors"
| "parseErrorSchema (error # zodErrors) errors =
     parseErrorSchema zodErrors
       (if map_of errors (join_path (path error)) = None
        then errors @ [(join_path (path error), FieldError (code error) (message error))]
        else errors)"

datatype ResolverResult = ResolverSuccess FormData | ResolverError FieldErrors

definition resolver :: "FormValues \<Rightarrow> ResolverResult" where
  "resolver values =
     (case formSchema values of
        Inr data \<Rightarrow> ResolverSuccess data
      | Inl issues \<Rightarrow> ResolverError (parseErrorSchema issues []))"

text \<open>The errors a result of the resolver carries (none on success).\<close>

definition errors_of :: "ResolverResult \<Rightarrow> FieldErrors" where
  "errors_of r = (case r of ResolverSuccess values \<Rightarrow> [] | ResolverError errors \<Rightarrow> errors)"

subsection \<open>The state of the application and its handlers\<close>

text \<open>
  A row of the table is the submitted data with an \<open>id\<close> (the field \<open>entry_id\<close>
  below) and a \<open>createdAt\<close>. The field \<open>createdAt\<close> holds the text \<open>toISOString\<close> writes for a time value, which
  \<open>new Date(text)\<close> reads back: the model keeps the time value the text stands for.
  The state is the table (\<open>useState\<close>) and what the form holds: the values of the
  fields, the errors it shows and the flag \<open>isSubmitted\<close>, which a submission sets
  and which makes the form validate again on every later change.
\<close>

datatype iso_string = ISOString int

record TableData = FormData +
  entry_id :: string
  createdAt :: iso_string

record AppState =
  tableData :: "TableData list"
  formValues :: FormValues
  formErrors :: FieldErrors
  isSubmitted :: bool

definition defaultValues :: FormValues where
  "defaultValues =
     (\<lambda>k. Undefined)(''name'' := Str [], ''email'' := Str [], ''isActive'' := Bool False)"

definition initial :: AppState where
  "initial =
     \<lparr>tableData = [], formValues = defaultValues, formErrors = [], isSubmitted = False\<rparr>"

text \<open>
  What a handler shows outside the state: the lines it logs and the dialog it opens.
  The two readings of the clock a submission takes (\<open>Date.now()\<close>, then
  \<open>new Date()\<close>) are inputs of the handler.
\<close>

datatype effect = LogValues string FormData | LogErrors string FieldErrors | Alert string

record Clock =
  Date_now :: int
  new_Date :: int

text \<open>
  \<open>field.onChange\<close> stores the value it is given under the key of its field. The
  form validates on submission (mode \<open>onSubmit\<close>) and, once submitted, again on
  every change (\<open>reValidateMode\<close> \<open>onChange\<close>): the resolver then runs on all the
  values and the error of the changed field alone is set or removed.
  \<open>form.reset()\<close> puts the default values back, clears the errors and the flag.
\<close>

fun set_error :: "string \<Rightarrow> FieldError \<Rightarrow> FieldErrors \<Rightarrow> FieldErrors" where
  "set_error k e [] = [(k, e)]"
| "set_error k e (p # ps) = (if fst p = k then (k, e) # ps else p # set_error k e ps)"

definition unset_error :: "string \<Rightarrow> FieldErrors \<Rightarrow> FieldErrors" where
  "unset_error k ps = filter (\<lambda>p. fst p \<noteq> k) ps"

definition field_onChange :: "string \<Rightarrow> jsval \<Rightarrow> AppState \<Rightarrow> AppState" where
  "field_onChange k v s =
     (let s1 = s\<lparr>formValues := (formValues s)(k := v)\<rparr>
      in if isSubmitted s
         then (case map_of (errors_of (resolver (formValues s1))) k of
                 Some error \<Rightarrow> s1\<lparr>formErrors := set_error k error (formErrors s1)\<rparr>
               | None \<Rightarrow> s1\<lparr>formErrors := unset_error k (formErrors s1)\<rparr>)
         else s1)"

definition form_reset :: "AppState \<Rightarrow> AppState" where
  "form_reset s = s\<lparr>formValues := defaultValues, formErrors := [], isSubmitted := False\<rparr>"

definition onSubmit :: "Clock \<Rightarrow> FormData \<Rightarrow> AppState \<Rightarrow> effect list \<times> AppState" where
  "onSubmit clock values s =
     (let newEntry = FormData.extend values
            (TableData.fields (Number_toString (Date_now clock))
               (ISOString (new_Date clock)));
          s1 = s\<lparr>tableData := tableData s @ [newEntry]\<rparr>;
          s2 = form_reset s1
      in ([LogValues ''Form submitted with values:'' values,
           Alert ''User added successfully!''], s2))"

definition onError :: "FieldErrors \<Rightarrow> AppState \<Rightarrow> effect list \<times> AppState" where
  "onError errors s = ([LogErrors ''Form validation errors:'' errors], s)"

text \<open>
  \<open>form.handleSubmit(onSubmit, onError)\<close>: the resolver runs on the current values,
  its errors become the errors of the form, one of the two handlers is called, and
  when it has returned the form is marked as submitted.
\<close>

definition handleSubmit :: "Clock \<Rightarrow> AppState \<Rightarrow> effect list \<times> AppState" where
  "handleSubmit clock s =
     (let (effects, s1) =
            (case resolver (formValues s) of
               ResolverError errors \<Rightarrow> onError errors (s\<lparr>formErrors := errors\<rparr>)
             | ResolverSuccess values \<Rightarrow> onSubmit clock values (s\<lparr>formErrors := []\<rparr>))
      in (effects, s1\<lparr>isSubmitted := True\<rparr>))"

subsection \<open>The controls\<close>

text \<open>
  The checkbox reports a \<open>CheckedState\<close> (\<open>true\<close>, \<open>false\<close> or the string
  \<open>indeterminate\<close>) and the form passes \<open>field.onChange\<close> as its callback. The
  select offers five items. The calendar disables the days after the present moment
  and before \<open>new Date("1900-01-01")\<close>, which is -2208988800000; a comparison with
  an invalid date is false.
\<close>

datatype CheckedState = Checked bool | Indeterminate

fun jsval_of_CheckedState :: "CheckedState \<Rightarrow> jsval" where
  "jsval_of_CheckedState (Checked b) = Bool b"
| "jsval_of_CheckedState Indeterminate = Str ''indeterminate''"

definition onCheckedChange :: "CheckedState \<Rightarrow> AppState \<Rightarrow> AppState" where
  "onCheckedChange c = field_onChange ''isActive'' (jsval_of_CheckedState c)"

definition SelectContent :: "string list" where
  "SelectContent = [''engineering'', ''marketing'', ''sales'', ''hr'', ''finance'']"

definition onValueChange :: "string \<Rightarrow> AppState \<Rightarrow> AppState" where
  "onValueChange v = field_onChange ''department'' (Str v)"

fun Calendar_disabled :: "int \<Rightarrow> jsdate \<Rightarrow> bool" where
  "Calendar_disabled now (Date t) = (t > now \<or> t < - 2208988800000)"
| "Calendar_disabled now InvalidDate = False"

subsection \<open>The body of the table\<close>

text \<open>
  A cell shows a text or a time value under a date-fns pattern (the text depends on
  the locale and the time zone, the model keeps pattern and time value). \<open>format\<close>
  throws a \<open>RangeError\<close> on an invalid date.
\<close>

datatype TableCell = Text string | Formatted string int

datatype TableRow = TableRow (key: "string option") (cells: "TableCell list")

datatype js_error = RangeError string

fun format_date :: "jsdate \<Rightarrow> string \<Rightarrow> js_error + TableCell" where
  "format_date (Date t) pattern = Inr (Formatted pattern t)"
| "format_date InvalidDate pattern = Inl (RangeError ''Invalid time value'')"

fun new_Date_of :: "iso_string \<Rightarrow> jsdate" where
  "new_Date_of (ISOString t) = Date t"

definition user_row :: "TableData \<Rightarrow> js_error + TableRow" where
  "user_row user =
     (case format_date (birthDate user) ''PP'' of
        Inl e \<Rightarrow> Inl e
      | Inr born \<Rightarrow>
          (case format_date (new_Date_of (createdAt user)) ''pp'' of
             Inl e \<Rightarrow> Inl e
           | Inr created \<Rightarrow>
               Inr (TableRow (Some (entry_id user))
                      [Text (name user), Text (email user), born, Text (department user),
                       Text (if isActive user then ''Active'' else ''Inactive''),
                       created])))"

fun map_rows :: "TableData list \<Rightarrow> js_error + TableRow list" where
  "map_rows [] = Inr []"
| "map_rows (user # users) =
     (case user_row user of
        Inl e \<Rightarrow> Inl e
      | Inr row \<Rightarrow> (case map_rows users of Inl e \<Rightarrow> Inl e | Inr rows \<Rightarrow> Inr (row # rows)))"

definition TableBody :: "TableData list \<Rightarrow> js_error + TableRow list" where
  "TableBody tbl =
     (if length tbl = 0
      then Inr [TableRow None
                  [Text ''No users registered yet. Fill out the form above to add users.'']]
      else map_rows tbl)"

subsection \<open>The constraints the schema declares\<close>

text \<open>
  The keys of the shape of \<open>formSchema\<close>, in the order of declaration, and the
  constraint each key declares, read as a predicate: a value violates the constraint of
  \<open>name\<close> unless it is a string of at least two code units, of \<open>email\<close> unless it is
  a string of the email pattern, of \<open>birthDate\<close> unless it is a valid date, of
  \<open>department\<close> unless it is a string, of \<open>isActive\<close> unless it is a boolean or
  missing.
\<close>

definition shape_keys :: "string list" where
  "shape_keys = [''name'', ''email'', ''birthDate'', ''department'', ''isActive'']"

definition violates :: "FormValues \<Rightarrow> string \<Rightarrow> bool" where
  "violates v k =
     (if k = ''name'' then (case v k of Str s \<Rightarrow> length s < 2 | _ \<Rightarrow> True)
      else if k = ''email'' then (case v k of Str s \<Rightarrow> \<not> emailRegex s | _ \<Rightarrow> True)
      else if k = ''birthDate'' then (case v k of DateVal (Date t) \<Rightarrow> False | _ \<Rightarrow> True)
      else if k = ''department'' then (case v k of Str s \<Rightarrow> False | _ \<Rightarrow> True)
      else if k = ''isActive'' then
        (case v k of Bool b \<Rightarrow> False | Undefined \<Rightarrow> False | _ \<Rightarrow> True)
      else False)"

text \<open>
  The fields that offend by the words of the specification (its section 4.1), to be
  compared with \<open>violates\<close>: a text field shorter than two characters, an email
  field that is no email address, a date field that is unset or no well-formed date,
  an enumeration field that is unset or not one of the declared options; a boolean
  field never fails.
\<close>

definition spec_offending :: "FormValues \<Rightarrow> string \<Rightarrow> bool" where
  "spec_offending v k =
     (if k = ''name'' then (case v k of Str s \<Rightarrow> length s < 2 | _ \<Rightarrow> True)
      else if k = ''email'' then (case v k of Str s \<Rightarrow> \<not> emailRegex s | _ \<Rightarrow> True)
      else if k = ''birthDate'' then (case v k of DateVal (Date t) \<Rightarrow> False | _ \<Rightarrow> True)
      else if k = ''department'' then
        (case v k of Str s \<Rightarrow> s \<notin> set SelectContent | _ \<Rightarrow> True)
      else False)"

text \<open>The last step of \<open>formSchema\<close>, on the results of the five keys.\<close>

definition combine ::
  "ZodIssue list + string \<Rightarrow> ZodIssue list + string \<Rightarrow> ZodIssue list + jsdate \<Rightarrow>
   ZodIssue list + string \<Rightarrow> ZodIssue list + bool \<Rightarrow> ZodIssue list + FormData" where
  "combine r_name r_email r_birthDate r_department r_isActive =
     (case (r_name, r_email, r_birthDate, r_department, r_isActive) of
           (Inr n, Inr e, Inr b, Inr d, Inr a) \<Rightarrow>
             Inr \<lparr>name = n, email = e, birthDate = b, department = d, isActive = a\<rparr>
         | _ \<Rightarrow>
             Inl (at_key ''name'' r_name @ at_key ''email'' r_email @
                  at_key ''birthDate'' r_birthDate @ at_key ''department'' r_department @
                  at_key ''isActive'' r_isActive))"

subsection \<open>The states the application reaches\<close>

text \<open>
  A session starts in \<open>initial\<close>; an event is a change of one field (any key, any
  value) or a submission at some reading of the clock.
\<close>

inductive reachable :: "AppState \<Rightarrow> bool" where
  init: "reachable initial"
| change: "reachable s \<Longrightarrow> reachable (field_onChange k v s)"
| submit: "reachable s \<Longrightarrow> reachable (snd (handleSubmit clock s))"

subsection \<open>Two sets of values used as examples\<close>

definition example_valid :: FormValues where
  "example_valid =
     (\<lambda>k. Undefined)
       (''name'' := Str ''Al'', ''email'' := Str ''al@example.com'',
        ''birthDate'' := DateVal (Date 946684800000), ''department'' := Str ''engineering'',
        ''isActive'' := Bool True)"

definition example_invalid :: FormValues where
  "example_invalid = (\<lambda>k. Undefined)(''name'' := Str ''A'', ''email'' := Str ''bad'')"

section \<open>Properties\<close>

subsection \<open>The schema, key by key\<close>

lemma at_key_Inr [simp]: "at_key k (Inr x) = []"
  by (simp add: at_key_def)

lemma at_key_single [simp]: "at_key k (Inl [ZodIssue c p m]) = [ZodIssue c (k # p) m]"
  by (simp add: at_key_def)

lemma name_cases:
  "z_string None [min_check 2 m] x =
     (case x of Str s \<Rightarrow> if length s < 2 then Inl [ZodIssue ''too_small'' [] m] else Inr s
      | _ \<Rightarrow> Inl [invalid_type ''string'' x])"
  by (cases x) (simp_all add: z_string_def min_check_def)

lemma email_cases:
  "z_string None [email_check m] x =
     (case x of Str s \<Rightarrow> if emailRegex s then Inr s else Inl [ZodIssue ''invalid_format'' [] m]
      | _ \<Rightarrow> Inl [invalid_type ''string'' x])"
  by (cases x) (simp_all add: z_string_def email_check_def)

lemma department_cases:
  "z_string (Some m) [] x =
     (case x of Str s \<Rightarrow> Inr s
      | _ \<Rightarrow> Inl [invalid_type ''string'' x])"
  by (cases x) (simp_all add: z_string_def)

lemma birthDate_cases:
  "z_date (Some m) x =
     (case x of DateVal (Date t) \<Rightarrow> Inr (Date t)
      | _ \<Rightarrow> Inl [invalid_type ''date'' x])"
  by (cases x) (simp_all add: z_date_def split: jsdate.splits)

lemma isActive_cases:
  "z_default z_boolean False x =
     (case x of Bool b \<Rightarrow> Inr b | Undefined \<Rightarrow> Inr False
      | _ \<Rightarrow> Inl [invalid_type ''boolean'' x])"
  by (cases x) (simp_all add: z_default_def z_boolean_def)

lemma violates_simps:
  "violates v ''name'' = (case v ''name'' of Str s \<Rightarrow> length s < 2 | _ \<Rightarrow> True)"
  "violates v ''email'' = (case v ''email'' of Str s \<Rightarrow> \<not> emailRegex s | _ \<Rightarrow> True)"
  "violates v ''birthDate'' = (case v ''birthDate'' of DateVal (Date t) \<Rightarrow> False | _ \<Rightarrow> True)"
  "violates v ''department'' = (case v ''department'' of Str s \<Rightarrow> False | _ \<Rightarrow> True)"
  "violates v ''isActive'' =
     (case v ''isActive'' of Bool b \<Rightarrow> False | Undefined \<Rightarrow> False | _ \<Rightarrow> True)"
  by (simp_all add: violates_def)

lemma combine_Inr:
  "combine r1 r2 r3 r4 r5 = Inr x \<longleftrightarrow>
     (\<exists>n e b d a. r1 = Inr n \<and> r2 = Inr e \<and> r3 = Inr b \<and> r4 = Inr d \<and> r5 = Inr a \<and>
        x = \<lparr>name = n, email = e, birthDate = b, department = d, isActive = a\<rparr>)"
  unfolding combine_def by (auto split: sum.splits)

lemma combine_Inl:
  "combine r1 r2 r3 r4 r5 = Inl issues \<Longrightarrow>
     issues = at_key ''name'' r1 @ at_key ''email'' r2 @ at_key ''birthDate'' r3 @
              at_key ''department'' r4 @ at_key ''isActive'' r5"
  unfolding combine_def by (auto split: sum.splits)

lemma formSchema_combine:
  "formSchema data =
     combine (z_string None [min_check 2 ''Name must be at least 2 characters.''] (data ''name''))
       (z_string None [email_check ''Please enter a valid email address.''] (data ''email''))
       (z_date (Some ''A birth date is required.'') (data ''birthDate''))
       (z_string (Some ''Please select a department.'') [] (data ''department''))
       (z_default z_boolean False (data ''isActive''))"
  unfolding formSchema_def combine_def Let_def ..

lemma field_issues:
  "\<exists>c m. at_key ''name'' (z_string None [min_check 2 msg] (v ''name'')) =
     (if violates v ''name'' then [ZodIssue c [''name''] m] else [])"
  "\<exists>c m. at_key ''email'' (z_string None [email_check msg] (v ''email'')) =
     (if violates v ''email'' then [ZodIssue c [''email''] m] else [])"
  "\<exists>c m. at_key ''birthDate'' (z_date (Some msg) (v ''birthDate'')) =
     (if violates v ''birthDate'' then [ZodIssue c [''birthDate''] m] else [])"
  "\<exists>c m. at_key ''department'' (z_string (Some msg) [] (v ''department'')) =
     (if violates v ''department'' then [ZodIssue c [''department''] m] else [])"
  "\<exists>c m. at_key ''isActive'' (z_default z_boolean False (v ''isActive'')) =
     (if violates v ''isActive'' then [ZodIssue c [''isActive''] m] else [])"
  by (simp_all add: violates_simps name_cases email_cases birthDate_cases department_cases
      isActive_cases invalid_type_def split: jsval.splits jsdate.splits)

lemma field_results:
  "(\<exists>x. z_string None [min_check 2 msg] (v ''name'') = Inr x) \<longleftrightarrow> \<not> violates v ''name''"
  "(\<exists>x. z_string None [email_check msg] (v ''email'') = Inr x) \<longleftrightarrow> \<not> violates v ''email''"
  "(\<exists>x. z_date (Some msg) (v ''birthDate'') = Inr x) \<longleftrightarrow> \<not> violates v ''birthDate''"
  "(\<exists>x. z_string (Some msg) [] (v ''department'') = Inr x) \<longleftrightarrow> \<not> violates v ''department''"
  "(\<exists>x. z_default z_boolean False (v ''isActive'') = Inr x) \<longleftrightarrow> \<not> violates v ''isActive''"
  by (auto simp: violates_simps name_cases email_cases birthDate_cases department_cases
      isActive_cases invalid_type_def split: jsval.splits jsdate.splits)

lemma formSchema_Inr_iff:
  "(\<exists>d. formSchema v = Inr d) \<longleftrightarrow> (\<forall>k\<in>set shape_keys. \<not> violates v k)"
proof -
  have "(\<exists>d. formSchema v = Inr d) \<longleftrightarrow>
        \<not> violates v ''name'' \<and> \<not> violates v ''email'' \<and> \<not> violates v ''birthDate'' \<and>
        \<not> violates v ''department'' \<and> \<not> violates v ''isActive''"
    unfolding formSchema_combine combine_Inr
    using field_results [where v = v] by blast
  then show ?thesis by (simp add: shape_keys_def)
qed

lemma formSchema_Inl_paths:
  assumes "formSchema v = Inl issues"
  shows "map path issues = map (\<lambda>k. [k]) (filter (violates v) shape_keys)"
proof -
  let ?n = "at_key ''name''
      (z_string None [min_check 2 ''Name must be at least 2 characters.''] (v ''name''))"
  let ?e = "at_key ''email''
      (z_string None [email_check ''Please enter a valid email address.''] (v ''email''))"
  let ?b = "at_key ''birthDate'' (z_date (Some ''A birth date is required.'') (v ''birthDate''))"
  let ?d = "at_key ''department''
      (z_string (Some ''Please select a department.'') [] (v ''department''))"
  let ?a = "at_key ''isActive'' (z_default z_boolean False (v ''isActive''))"
  have issues: "issues = ?n @ ?e @ ?b @ ?d @ ?a"
    using assms unfolding formSchema_combine by (rule combine_Inl)
  have n: "map path ?n = (if violates v ''name'' then [[''name'']] else [])"
    using field_issues(1) [where v = v and msg = "''Name must be at least 2 characters.''"] by (auto split: if_splits)
  have e: "map path ?e = (if violates v ''email'' then [[''email'']] else [])"
    using field_issues(2) [where v = v and msg = "''Please enter a valid email address.''"] by (auto split: if_splits)
  have b: "map path ?b = (if violates v ''birthDate'' then [[''birthDate'']] else [])"
    using field_issues(3) [where v = v and msg = "''A birth date is required.''"] by (auto split: if_splits)
  have d: "map path ?d = (if violates v ''department'' then [[''department'']] else [])"
    using field_issues(4) [where v = v and msg = "''Please select a department.''"] by (auto split: if_splits)
  have a: "map path ?a = (if violates v ''isActive'' then [[''isActive'']] else [])"
    using field_issues(5) [where v = v] by (auto split: if_splits)
  have "map path issues = map path ?n @ map path ?e @ map path ?b @ map path ?d @ map path ?a"
    unfolding issues by simp
  then show ?thesis unfolding n e b d a by (simp add: shape_keys_def)
qed

lemma parseErrorSchema_fresh:
  "distinct (map (\<lambda>i. join_path (path i)) issues) \<Longrightarrow>
   (\<forall>i\<in>set issues. map_of errors (join_path (path i)) = None) \<Longrightarrow>
   parseErrorSchema issues errors =
     errors @ map (\<lambda>i. (join_path (path i), FieldError (code i) (message i))) issues"
proof (induction issues arbitrary: errors)
  case Nil
  then show ?case by simp
next
  case (Cons i issues)
  let ?e = "errors @ [(join_path (path i), FieldError (code i) (message i))]"
  have "distinct (map (\<lambda>i. join_path (path i)) issues)"
    using Cons.prems by simp
  moreover have "\<forall>j\<in>set issues. map_of ?e (join_path (path j)) = None"
  proof
    fix j assume j: "j \<in> set issues"
    then have "join_path (path j) \<in> (\<lambda>i. join_path (path i)) ` set issues"
      by (rule imageI)
    moreover have "join_path (path i) \<notin> (\<lambda>i. join_path (path i)) ` set issues"
      using Cons.prems(1) by simp
    ultimately have "join_path (path j) \<noteq> join_path (path i)"
      by metis
    then show "map_of ?e (join_path (path j)) = None"
      using Cons.prems(2) j by (simp add: map_add_def)
  qed
  ultimately have "parseErrorSchema issues ?e =
      ?e @ map (\<lambda>i. (join_path (path i), FieldError (code i) (message i))) issues"
    by (rule Cons.IH)
  then show ?case using Cons.prems by simp
qed

lemma resolver_keys:
  assumes "resolver v = ResolverError errs"
  shows "map fst errs = filter (violates v) shape_keys"
proof -
  obtain issues where iss: "formSchema v = Inl issues" and errs: "errs = parseErrorSchema issues []"
    using assms by (auto simp: resolver_def split: sum.splits)
  have paths: "map path issues = map (\<lambda>k. [k]) (filter (violates v) shape_keys)"
    by (rule formSchema_Inl_paths [OF iss])
  have keys: "map (\<lambda>i. join_path (path i)) issues = filter (violates v) shape_keys"
  proof -
    have "map (\<lambda>i. join_path (path i)) issues = map join_path (map path issues)" by simp
    also have "\<dots> = filter (violates v) shape_keys" unfolding paths by (simp add: comp_def)
    finally show ?thesis .
  qed
  have "distinct (map (\<lambda>i. join_path (path i)) issues)"
    unfolding keys by (simp add: shape_keys_def)
  then have "errs = map (\<lambda>i. (join_path (path i), FieldError (code i) (message i))) issues"
    unfolding errs using parseErrorSchema_fresh [of issues "[]"] by simp
  then have "map fst errs = map (\<lambda>i. join_path (path i)) issues" by (simp add: comp_def)
  then show ?thesis using keys by simp
qed

subsection \<open>The resolver and the handlers\<close>

lemma violates_shape: "violates v k \<Longrightarrow> k \<in> set shape_keys"
  by (simp add: violates_def shape_keys_def split: if_splits)

lemma resolver_cases:
  "(\<exists>d. resolver v = ResolverSuccess d) \<or> (\<exists>errs. resolver v = ResolverError errs)"
  by (cases "resolver v") auto

lemma resolver_success_iff:
  "(\<exists>d. resolver v = ResolverSuccess d) \<longleftrightarrow> (\<forall>k\<in>set shape_keys. \<not> violates v k)"
proof -
  have "(\<exists>d. resolver v = ResolverSuccess d) \<longleftrightarrow> (\<exists>d. formSchema v = Inr d)"
    by (auto simp: resolver_def split: sum.splits)
  then show ?thesis by (simp add: formSchema_Inr_iff)
qed

lemma resolver_success_fields:
  assumes "resolver v = ResolverSuccess d"
  shows "v ''name'' = Str (name d)" "v ''email'' = Str (email d)"
    "v ''birthDate'' = DateVal (birthDate d)" "v ''department'' = Str (department d)"
    "(if v ''isActive'' = Undefined then Bool False else v ''isActive'') = Bool (isActive d)"
    "birthDate d \<noteq> InvalidDate"
proof -
  have d: "formSchema v = Inr d"
    using assms by (auto simp: resolver_def split: sum.splits)
  from d [unfolded formSchema_combine combine_Inr]
  obtain n e b dp a where
    n: "z_string None [min_check 2 ''Name must be at least 2 characters.''] (v ''name'') = Inr n"
    and e: "z_string None [email_check ''Please enter a valid email address.''] (v ''email'') = Inr e"
    and b: "z_date (Some ''A birth date is required.'') (v ''birthDate'') = Inr b"
    and dp: "z_string (Some ''Please select a department.'') [] (v ''department'') = Inr dp"
    and a: "z_default z_boolean False (v ''isActive'') = Inr a"
    and dd: "d = \<lparr>name = n, email = e, birthDate = b, department = dp, isActive = a\<rparr>"
    by blast
  show "v ''name'' = Str (name d)"
    using n unfolding dd name_cases by (auto split: jsval.splits if_splits)
  show "v ''email'' = Str (email d)"
    using e unfolding dd email_cases by (auto split: jsval.splits if_splits)
  show "v ''birthDate'' = DateVal (birthDate d)"
    using b unfolding dd birthDate_cases by (auto split: jsval.splits jsdate.splits if_splits)
  show "birthDate d \<noteq> InvalidDate"
    using b unfolding dd birthDate_cases by (auto split: jsval.splits jsdate.splits if_splits)
  show "v ''department'' = Str (department d)"
    using dp unfolding dd department_cases by (auto split: jsval.splits if_splits)
  show "(if v ''isActive'' = Undefined then Bool False else v ''isActive'') = Bool (isActive d)"
    using a unfolding dd isActive_cases by (auto split: jsval.splits if_splits)
qed

lemma handleSubmit_error:
  "resolver (formValues s) = ResolverError errs \<Longrightarrow>
   handleSubmit clock s =
     ([LogErrors ''Form validation errors:'' errs], s\<lparr>formErrors := errs, isSubmitted := True\<rparr>)"
  by (simp add: handleSubmit_def onError_def)

lemma handleSubmit_success:
  "resolver (formValues s) = ResolverSuccess d \<Longrightarrow>
   handleSubmit clock s =
     ([LogValues ''Form submitted with values:'' d, Alert ''User added successfully!''],
      \<lparr>tableData = tableData s @
          [\<lparr>name = name d, email = email d, birthDate = birthDate d,
            department = department d, isActive = isActive d,
            entry_id = Number_toString (Date_now clock),
            createdAt = ISOString (new_Date clock)\<rparr>],
        formValues = defaultValues, formErrors = [], isSubmitted = True\<rparr>)"
  by (cases d) (simp add: handleSubmit_def onSubmit_def form_reset_def Let_def
      FormData.defs TableData.defs)

lemma formValues_field_onChange [simp]:
  "formValues (field_onChange k v s) = (formValues s)(k := v)"
  by (simp add: field_onChange_def Let_def split: option.splits)

lemma tableData_field_onChange [simp]:
  "tableData (field_onChange k v s) = tableData s"
  by (simp add: field_onChange_def Let_def split: option.splits)

lemma toString_nat_nonempty: "toString_nat n \<noteq> []"
  by (subst toString_nat.simps) simp

lemma Number_toString_nonempty: "Number_toString i \<noteq> []"
  by (simp add: Number_toString_def toString_nat_nonempty)

lemma example_valid_ok: "\<forall>k\<in>set shape_keys. \<not> violates example_valid k"
  by (simp add: shape_keys_def violates_simps example_valid_def emailRegex_def
      local_part_ok_def domain_ok_def label_ok_def is_alnum_def is_alpha_def is_digit_def)

lemma example_invalid_violations:
  "filter (violates example_invalid) shape_keys = [''name'', ''email'', ''birthDate'', ''department'']"
  by (simp add: shape_keys_def violates_simps example_invalid_def emailRegex_def)

lemma resolver_department_error:
  assumes "resolver v = ResolverError errs"
  shows "map_of errs ''department'' =
     (case v ''department'' of
        Str s \<Rightarrow> None
      | x \<Rightarrow> Some (FieldError ''invalid_type''
                 (''Invalid input: expected string, received '' @ parsedType x)))"
proof -
  let ?g = "\<lambda>i. (join_path (path i), FieldError (code i) (message i))"
  let ?n = "at_key ''name''
      (z_string None [min_check 2 ''Name must be at least 2 characters.''] (v ''name''))"
  let ?e = "at_key ''email''
      (z_string None [email_check ''Please enter a valid email address.''] (v ''email''))"
  let ?b = "at_key ''birthDate'' (z_date (Some ''A birth date is required.'') (v ''birthDate''))"
  let ?d = "at_key ''department''
      (z_string (Some ''Please select a department.'') [] (v ''department''))"
  let ?a = "at_key ''isActive'' (z_default z_boolean False (v ''isActive''))"
  obtain issues where iss: "formSchema v = Inl issues" and errs: "errs = parseErrorSchema issues []"
    using assms by (auto simp: resolver_def split: sum.splits)
  have issues: "issues = ?n @ ?e @ ?b @ ?d @ ?a"
    using iss unfolding formSchema_combine by (rule combine_Inl)
  have "map (\<lambda>i. join_path (path i)) issues = map join_path (map path issues)" by simp
  also have "\<dots> = filter (violates v) shape_keys"
    unfolding formSchema_Inl_paths [OF iss] by (simp add: comp_def)
  finally have "distinct (map (\<lambda>i. join_path (path i)) issues)"
    by (simp add: shape_keys_def)
  then have e: "errs = map ?g ?n @ map ?g ?e @ map ?g ?b @ map ?g ?d @ map ?g ?a"
    unfolding errs using parseErrorSchema_fresh [of issues "[]"] by (simp add: issues)
  have n: "map_of (map ?g ?n) ''department'' = None"
    using field_issues(1) [where v = v and msg = "''Name must be at least 2 characters.''"]
    by (auto split: if_splits)
  have em: "map_of (map ?g ?e) ''department'' = None"
    using field_issues(2) [where v = v and msg = "''Please enter a valid email address.''"]
    by (auto split: if_splits)
  have b: "map_of (map ?g ?b) ''department'' = None"
    using field_issues(3) [where v = v and msg = "''A birth date is required.''"]
    by (auto split: if_splits)
  have d: "map_of (map ?g ?d) ''department'' =
     (case v ''department'' of
        Str s \<Rightarrow> None
      | x \<Rightarrow> Some (FieldError ''invalid_type''
                 (''Invalid input: expected string, received '' @ parsedType x)))"
    by (simp add: department_cases invalid_type_def split: jsval.splits)
  have a: "map_of (map ?g ?a) ''department'' = None"
    using field_issues(5) [where v = v] by (auto split: if_splits)
  have "map_of errs ''department'' = map_of (map ?g ?d) ''department''"
    unfolding e map_of_append map_add_def by (simp add: n em b a split: option.splits)
  then show ?thesis unfolding d .
qed

subsection \<open>The decimal text of a number determines the number\<close>

lemma digit_val_nth: "n < 10 \<Longrightarrow> digit_val (''0123456789'' ! n) = n"
proof -
  assume "n < 10"
  then consider "n = 0" | "n = 1" | "n = 2" | "n = 3" | "n = 4" | "n = 5" | "n = 6"
    | "n = 7" | "n = 8" | "n = 9" by atomize_elim arith
  then show ?thesis by cases (simp_all add: digit_val_def)
qed

lemma digit_nth_not_minus: "n < 10 \<Longrightarrow> ''0123456789'' ! n \<noteq> CHR ''-''"
proof -
  assume "n < 10"
  then consider "n = 0" | "n = 1" | "n = 2" | "n = 3" | "n = 4" | "n = 5" | "n = 6"
    | "n = 7" | "n = 8" | "n = 9" by atomize_elim arith
  then show ?thesis by cases simp_all
qed

lemma of_digits_toString_nat: "of_digits (toString_nat n) = n"
proof (induction n rule: toString_nat.induct)
  case (1 n)
  show ?case
  proof (cases "n < 10")
    case True
    then show ?thesis
      by (subst toString_nat.simps) (simp add: of_digits_def digit_val_nth)
  next
    case False
    have "of_digits (toString_nat n) =
        10 * of_digits (toString_nat (n div 10)) + digit_val (''0123456789'' ! (n mod 10))"
      using False by (subst toString_nat.simps) (simp add: of_digits_def)
    also have "\<dots> = 10 * (n div 10) + n mod 10"
      using "1.IH" [OF False] by (simp add: digit_val_nth)
    finally show ?thesis by simp
  qed
qed

lemma toString_nat_inj: "toString_nat n = toString_nat m \<Longrightarrow> n = m"
  by (metis of_digits_toString_nat)

lemma hd_toString_nat: "hd (toString_nat n) \<noteq> CHR ''-''"
proof (induction n rule: toString_nat.induct)
  case (1 n)
  show ?case
  proof (cases "n < 10")
    case True
    then show ?thesis by (subst toString_nat.simps) (simp add: digit_nth_not_minus)
  next
    case False
    then show ?thesis
      using "1.IH" [OF False] toString_nat_nonempty [of "n div 10"]
      by (subst toString_nat.simps) simp
  qed
qed

lemma Number_toString_inj: "Number_toString i = Number_toString j \<longleftrightarrow> i = j"
proof
  assume eq: "Number_toString i = Number_toString j"
  have neg: "hd (Number_toString k) = CHR ''-'' \<longleftrightarrow> k < 0" for k
    using hd_toString_nat [of "nat k"] by (simp add: Number_toString_def)
  have sign: "i < 0 \<longleftrightarrow> j < 0" using neg [of i] neg [of j] eq by simp
  show "i = j"
  proof (cases "i < 0")
    case True
    then have "toString_nat (nat (- i)) = toString_nat (nat (- j))"
      using eq sign by (simp add: Number_toString_def)
    then have "nat (- i) = nat (- j)" by (rule toString_nat_inj)
    then show ?thesis using True sign by simp
  next
    case False
    then have "toString_nat (nat i) = toString_nat (nat j)"
      using eq sign by (simp add: Number_toString_def)
    then have "nat i = nat j" by (rule toString_nat_inj)
    then show ?thesis using False sign by simp
  qed
qed simp

subsection \<open>Validation\<close>

text \<open>
  C1 (as amended). The schema declares \<open>department\<close> as a string, not as an
  enumeration: whenever the field holds a string, one of the five items of the select
  or any other, the resolver reports no error for \<open>department\<close>; when the field is
  unset, validation fails and the resolver reports an error for \<open>department\<close>.
\<close>

theorem department_any_string_accepted:
  "(v ''department'' = Str d \<longrightarrow> map_of (errors_of (resolver v)) ''department'' = None) \<and>
   (v ''department'' = Undefined \<longrightarrow>
      (\<exists>errs e. resolver v = ResolverError errs \<and> map_of errs ''department'' = Some e))"
proof (cases "resolver v")
  case (ResolverSuccess d0)
  then have "\<not> violates v ''department''"
    using resolver_success_iff [of v] by (auto simp: shape_keys_def)
  then have "v ''department'' \<noteq> Undefined"
    by (auto simp: violates_simps)
  then show ?thesis using ResolverSuccess by (simp add: errors_of_def)
next
  case (ResolverError errs)
  show ?thesis
    using resolver_department_error [OF ResolverError] ResolverError
    by (auto simp: errors_of_def)
qed

theorem department_any_string_accepted_witness:
  "example_valid ''department'' = Str ''engineering'' \<and>
   map_of (errors_of (resolver example_valid)) ''department'' = None \<and>
   example_invalid ''department'' = Undefined \<and>
   (\<exists>errs e. resolver example_invalid = ResolverError errs \<and>
      map_of errs ''department'' = Some e)"
proof -
  have a: "example_valid ''department'' = Str ''engineering''"
    by (simp add: example_valid_def)
  have b: "example_invalid ''department'' = Undefined"
    by (simp add: example_invalid_def)
  from department_any_string_accepted [of example_valid "''engineering''"] a
  have "map_of (errors_of (resolver example_valid)) ''department'' = None" by simp
  moreover from department_any_string_accepted [of example_invalid] b
  have "\<exists>errs e. resolver example_invalid = ResolverError errs \<and>
      map_of errs ''department'' = Some e" by simp
  ultimately show ?thesis using a b by simp
qed

text \<open>
  C1 (as stated) fails: with every other field in order and \<open>department\<close> set to a
  string that is none of the five items, the resolver reports no error for the key.
\<close>

theorem department_outside_options_accepted:
  "map_of (errors_of (resolver (example_valid(''department'' := Str ''astrology''))))
     ''department'' = None \<and>
   ''astrology'' \<notin> set SelectContent"
proof -
  have "\<forall>k\<in>set shape_keys. \<not> violates (example_valid(''department'' := Str ''astrology'')) k"
    using example_valid_ok by (simp add: shape_keys_def violates_simps)
  then obtain d where "resolver (example_valid(''department'' := Str ''astrology'')) = ResolverSuccess d"
    using resolver_success_iff by blast
  then show ?thesis by (simp add: errors_of_def SelectContent_def)
qed

text \<open>
  C6 (as amended). When some key has the constraint violated that \<open>formSchema\<close>
  declares for it (for \<open>department\<close>: to be a string, any string), the resolver
  reports errors, and the keys of the errors are exactly the keys whose constraint is
  violated, all of them, in the order of the schema: no key hides the failure of a
  later one.
\<close>

theorem errors_keyed_by_violations:
  assumes "\<exists>k\<in>set shape_keys. violates v k"
  shows "\<exists>errs. resolver v = ResolverError errs \<and> errs \<noteq> [] \<and>
           map fst errs = filter (violates v) shape_keys \<and>
           (\<forall>k. (map_of errs k \<noteq> None) = violates v k)"
proof -
  obtain errs where e: "resolver v = ResolverError errs"
    using assms resolver_cases [of v] resolver_success_iff [of v] by blast
  have keys: "map fst errs = filter (violates v) shape_keys"
    by (rule resolver_keys [OF e])
  have "filter (violates v) shape_keys \<noteq> []"
    using assms by (simp add: filter_empty_conv)
  then have ne: "errs \<noteq> []" using keys by auto
  have "\<forall>k. (map_of errs k \<noteq> None) = violates v k"
  proof
    fix k
    have "(map_of errs k \<noteq> None) = (k \<in> set (map fst errs))"
      by (simp add: map_of_eq_None_iff)
    also have "\<dots> = (k \<in> set shape_keys \<and> violates v k)"
      unfolding keys by auto
    also have "\<dots> = violates v k"
      using violates_shape [of v k] by blast
    finally show "(map_of errs k \<noteq> None) = violates v k" .
  qed
  with e ne keys show ?thesis by blast
qed

theorem errors_keyed_by_violations_witness:
  "(\<exists>k\<in>set shape_keys. violates example_invalid k) \<and>
   (\<exists>errs. resolver example_invalid = ResolverError errs \<and>
      map fst errs = [''name'', ''email'', ''birthDate'', ''department''])"
proof -
  have h: "\<exists>k\<in>set shape_keys. violates example_invalid k"
    by (simp add: shape_keys_def violates_simps example_invalid_def)
  from errors_keyed_by_violations [OF h]
  obtain errs where "resolver example_invalid = ResolverError errs"
    and "map fst errs = filter (violates example_invalid) shape_keys"
    by auto
  then have "\<exists>errs. resolver example_invalid = ResolverError errs \<and>
      map fst errs = [''name'', ''email'', ''birthDate'', ''department'']"
    unfolding example_invalid_violations by (intro exI [of _ errs] conjI)
  with h show ?thesis by (rule conjI)
qed

text \<open>
  C6 (as stated) fails: a department outside the declared options offends by the words
  of the specification, yet with the name too short, the email malformed and the
  birth date unset beside it, the errors are keyed by those three fields only.
\<close>

theorem offending_department_not_reported:
  "spec_offending (example_invalid(''department'' := Str ''astrology'')) ''department'' \<and>
   map fst (errors_of (resolver (example_invalid(''department'' := Str ''astrology'')))) =
     [''name'', ''email'', ''birthDate'']"
proof -
  let ?v = "example_invalid(''department'' := Str ''astrology'')"
  have keys: "filter (violates ?v) shape_keys = [''name'', ''email'', ''birthDate'']"
    by (simp add: shape_keys_def violates_simps example_invalid_def emailRegex_def)
  have "violates ?v ''name''"
    by (simp add: violates_simps example_invalid_def)
  then have "\<not> (\<forall>k\<in>set shape_keys. \<not> violates ?v k)"
    by (auto simp: shape_keys_def)
  then obtain errs where e: "resolver ?v = ResolverError errs"
    using resolver_cases [of ?v] resolver_success_iff [of ?v] by auto
  have "map fst errs = [''name'', ''email'', ''birthDate'']"
    using resolver_keys [OF e] keys by simp
  moreover have "spec_offending ?v ''department''"
    by (simp add: spec_offending_def SelectContent_def)
  ultimately show ?thesis using e by (simp add: errors_of_def)
qed

text \<open>
  C10. Any valid date passes validation as \<open>birthDate\<close>, whatever its time value:
  the resolver reports no error for the key, and when the other keys are in order the
  submission adds a row of that birth date to the table. The bounds of the calendar
  (no day after the present, none before 1900) are bounds of the control only.
\<close>

theorem birthDate_any_valid_date_accepted:
  assumes "formValues s ''birthDate'' = DateVal (Date t)"
  shows "map_of (errors_of (resolver (formValues s))) ''birthDate'' = None \<and>
         ((\<forall>k\<in>set shape_keys. k \<noteq> ''birthDate'' \<longrightarrow> \<not> violates (formValues s) k) \<longrightarrow>
            (\<exists>r. tableData (snd (handleSubmit clock s)) = tableData s @ [r] \<and>
                 birthDate r = Date t))"
proof -
  have nv: "\<not> violates (formValues s) ''birthDate''"
    using assms by (simp add: violates_simps)
  have "map_of (errors_of (resolver (formValues s))) ''birthDate'' = None"
  proof (cases "resolver (formValues s)")
    case (ResolverSuccess d)
    then show ?thesis by (simp add: errors_of_def)
  next
    case (ResolverError errs)
    have "''birthDate'' \<notin> set (map fst errs)"
      unfolding resolver_keys [OF ResolverError] using nv by simp
    then show ?thesis
      using ResolverError by (simp add: errors_of_def map_of_eq_None_iff)
  qed
  moreover have "\<exists>r. tableData (snd (handleSubmit clock s)) = tableData s @ [r] \<and>
        birthDate r = Date t"
    if "\<forall>k\<in>set shape_keys. k \<noteq> ''birthDate'' \<longrightarrow> \<not> violates (formValues s) k"
  proof -
    have "\<forall>k\<in>set shape_keys. \<not> violates (formValues s) k"
      using that nv by auto
    then obtain d where d: "resolver (formValues s) = ResolverSuccess d"
      using resolver_success_iff [of "formValues s"] by blast
    have "birthDate d = Date t"
      using resolver_success_fields(3) [OF d] assms by simp
    then show ?thesis
      by (simp add: handleSubmit_success [OF d])
  qed
  ultimately show ?thesis by (intro conjI impI)
qed

theorem birthDate_any_valid_date_accepted_witness:
  "Calendar_disabled 1700000000000 (Date (- 2208988800001)) \<and>
   Calendar_disabled 1700000000000 (Date 1700000000001) \<and>
   map_of (errors_of (resolver (example_valid(''birthDate'' := DateVal (Date (- 2208988800001))))))
     ''birthDate'' = None \<and>
   (\<exists>r. tableData (snd (handleSubmit \<lparr>Date_now = 1700000000000, new_Date = 1700000000000\<rparr>
            (initial\<lparr>formValues := example_valid(''birthDate'' := DateVal (Date 1700000000001))\<rparr>)))
          = [r] \<and> birthDate r = Date 1700000000001)"
proof -
  let ?v1 = "example_valid(''birthDate'' := DateVal (Date (- 2208988800001)))"
  let ?v2 = "example_valid(''birthDate'' := DateVal (Date 1700000000001))"
  let ?c = "\<lparr>Date_now = 1700000000000, new_Date = 1700000000000\<rparr>"
  have h1: "formValues (initial\<lparr>formValues := ?v1\<rparr>) ''birthDate'' = DateVal (Date (- 2208988800001))"
    by simp
  have h2: "formValues (initial\<lparr>formValues := ?v2\<rparr>) ''birthDate'' = DateVal (Date 1700000000001)"
    by simp
  have others: "\<forall>k\<in>set shape_keys. k \<noteq> ''birthDate'' \<longrightarrow>
      \<not> violates (formValues (initial\<lparr>formValues := ?v2\<rparr>)) k"
    using example_valid_ok by (simp add: shape_keys_def violates_simps)
  have a: "map_of (errors_of (resolver ?v1)) ''birthDate'' = None"
    using birthDate_any_valid_date_accepted [OF h1, of ?c] by simp
  have "\<exists>r. tableData (snd (handleSubmit ?c (initial\<lparr>formValues := ?v2\<rparr>))) =
            tableData (initial\<lparr>formValues := ?v2\<rparr>) @ [r] \<and> birthDate r = Date 1700000000001"
    by (rule mp [OF conjunct2 [OF birthDate_any_valid_date_accepted [OF h2, of ?c]] others])
  then have b: "\<exists>r. tableData (snd (handleSubmit ?c (initial\<lparr>formValues := ?v2\<rparr>))) = [r] \<and>
       birthDate r = Date 1700000000001"
    by (simp add: initial_def)
  show ?thesis using a b by simp
qed

subsection \<open>The checkbox\<close>

text \<open>
  C3 (the code at the input of the claim). When the checkbox reports
  \<open>indeterminate\<close>, \<open>field.onChange\<close> stores that value as it is: the field
  \<open>isActive\<close> then holds the string \<open>indeterminate\<close>, not \<open>false\<close>, and the next
  validation reports an error of type for it.
\<close>

theorem indeterminate_stored_unchanged:
  "formValues (onCheckedChange Indeterminate s) ''isActive'' = Str ''indeterminate'' \<and>
   formValues (onCheckedChange Indeterminate s) ''isActive'' \<noteq> Bool False \<and>
   violates (formValues (onCheckedChange Indeterminate s)) ''isActive''"
  by (simp add: onCheckedChange_def violates_simps)

subsection \<open>Submission\<close>

text \<open>
  C4. When no key of the schema has its constraint violated, the submission passes
  validation and the table grows by exactly one row at its end. The form fields of the
  row are the values submitted (\<open>isActive\<close> is \<open>false\<close> when the value was
  missing), its \<open>id\<close> is the decimal text of \<open>Date.now()\<close>, which is not empty,
  and its \<open>createdAt\<close> is the text of the time \<open>new Date()\<close> read.
\<close>

theorem submit_valid_appends_record:
  assumes "\<forall>k\<in>set shape_keys. \<not> violates (formValues s) k"
  shows "\<exists>d r. resolver (formValues s) = ResolverSuccess d \<and>
           tableData (snd (handleSubmit clock s)) = tableData s @ [r] \<and>
           Str (name r) = formValues s ''name'' \<and>
           Str (email r) = formValues s ''email'' \<and>
           DateVal (birthDate r) = formValues s ''birthDate'' \<and>
           Str (department r) = formValues s ''department'' \<and>
           Bool (isActive r) =
             (if formValues s ''isActive'' = Undefined then Bool False
              else formValues s ''isActive'') \<and>
           entry_id r = Number_toString (Date_now clock) \<and> entry_id r \<noteq> [] \<and>
           createdAt r = ISOString (new_Date clock)"
proof -
  obtain d where d: "resolver (formValues s) = ResolverSuccess d"
    using assms resolver_success_iff [of "formValues s"] by blast
  let ?r = "\<lparr>name = name d, email = email d, birthDate = birthDate d,
            department = department d, isActive = isActive d,
            entry_id = Number_toString (Date_now clock),
            createdAt = ISOString (new_Date clock)\<rparr>"
  have "tableData (snd (handleSubmit clock s)) = tableData s @ [?r]"
    by (simp add: handleSubmit_success [OF d])
  moreover note resolver_success_fields [OF d]
  ultimately show ?thesis
    using d Number_toString_nonempty [of "Date_now clock"]
    by (intro exI [of _ d] exI [of _ ?r]) simp
qed

theorem submit_valid_appends_record_witness:
  "list_all (\<lambda>k. \<not> violates (formValues (initial\<lparr>formValues := example_valid\<rparr>)) k)
     shape_keys \<and>
   (\<exists>r. tableData (snd (handleSubmit \<lparr>Date_now = 1700000000000, new_Date = 1700000000001\<rparr>
             (initial\<lparr>formValues := example_valid\<rparr>))) = [r] \<and>
        name r = ''Al'' \<and> email r = ''al@example.com'' \<and> birthDate r = Date 946684800000 \<and>
        department r = ''engineering'' \<and> isActive r = True \<and>
        entry_id r = ''1700000000000'' \<and> createdAt r = ISOString 1700000000001)"
proof -
  let ?s = "initial\<lparr>formValues := example_valid\<rparr>"
  let ?c = "\<lparr>Date_now = 1700000000000, new_Date = 1700000000001\<rparr>"
  have h: "\<forall>k\<in>set shape_keys. \<not> violates (formValues ?s) k"
    using example_valid_ok by simp
  have n: "Number_toString 1700000000000 = ''1700000000000''"
    by (simp add: Number_toString_def)
  from submit_valid_appends_record [OF h, of ?c]
  obtain r where "tableData (snd (handleSubmit ?c ?s)) = tableData ?s @ [r]"
    and "Str (name r) = formValues ?s ''name''"
    and "Str (email r) = formValues ?s ''email''"
    and "DateVal (birthDate r) = formValues ?s ''birthDate''"
    and "Str (department r) = formValues ?s ''department''"
    and "Bool (isActive r) = (if formValues ?s ''isActive'' = Undefined then Bool False
              else formValues ?s ''isActive'')"
    and "entry_id r = Number_toString (Date_now ?c)"
    and "createdAt r = ISOString (new_Date ?c)"
    by blast
  then have "tableData (snd (handleSubmit ?c ?s)) = [r] \<and>
        name r = ''Al'' \<and> email r = ''al@example.com'' \<and> birthDate r = Date 946684800000 \<and>
        department r = ''engineering'' \<and> isActive r = True \<and>
        entry_id r = ''1700000000000'' \<and> createdAt r = ISOString 1700000000001"
    by (simp add: initial_def example_valid_def n)
  then have "\<exists>r. tableData (snd (handleSubmit ?c ?s)) = [r] \<and>
        name r = ''Al'' \<and> email r = ''al@example.com'' \<and> birthDate r = Date 946684800000 \<and>
        department r = ''engineering'' \<and> isActive r = True \<and>
        entry_id r = ''1700000000000'' \<and> createdAt r = ISOString 1700000000001"
    by (rule exI)
  moreover have "list_all (\<lambda>k. \<not> violates (formValues ?s) k) shape_keys"
    using h by (simp add: list_all_iff)
  ultimately show ?thesis by simp
qed

text \<open>
  C5. When the resolver reports errors, the submission leaves the table as it was and
  the form keeps the values it held; the errors become the errors of the form.
\<close>

theorem submit_invalid_keeps_state:
  assumes "resolver (formValues s) = ResolverError errs"
  shows "tableData (snd (handleSubmit clock s)) = tableData s \<and>
         formValues (snd (handleSubmit clock s)) = formValues s \<and>
         formErrors (snd (handleSubmit clock s)) = errs"
  using assms by (simp add: handleSubmit_error)

theorem submit_invalid_keeps_state_witness:
  "\<exists>errs. resolver (formValues (initial\<lparr>formValues := example_invalid\<rparr>)) = ResolverError errs \<and>
     tableData (snd (handleSubmit \<lparr>Date_now = 7, new_Date = 8\<rparr>
        (initial\<lparr>formValues := example_invalid\<rparr>))) = [] \<and>
     formValues (snd (handleSubmit \<lparr>Date_now = 7, new_Date = 8\<rparr>
        (initial\<lparr>formValues := example_invalid\<rparr>))) = example_invalid"
proof -
  let ?s = "initial\<lparr>formValues := example_invalid\<rparr>"
  have "\<not> (\<forall>k\<in>set shape_keys. \<not> violates (formValues ?s) k)"
    by (simp add: shape_keys_def violates_simps example_invalid_def)
  then obtain errs where e: "resolver (formValues ?s) = ResolverError errs"
    using resolver_cases [of "formValues ?s"] resolver_success_iff [of "formValues ?s"] by blast
  from submit_invalid_keeps_state [OF e, of "\<lparr>Date_now = 7, new_Date = 8\<rparr>"] e
  show ?thesis by (auto simp: initial_def)
qed

text \<open>
  C7. After a submission that passes validation the form holds the declared default
  values: \<open>name\<close> and \<open>email\<close> are the empty string, \<open>isActive\<close> is \<open>false\<close>, and
  \<open>birthDate\<close> and \<open>department\<close>, for which no default is declared, are unset again;
  the form has no errors.
\<close>

theorem submit_valid_resets_form:
  assumes "resolver (formValues s) = ResolverSuccess d"
  shows "formValues (snd (handleSubmit clock s)) = defaultValues \<and>
         formErrors (snd (handleSubmit clock s)) = [] \<and>
         formValues (snd (handleSubmit clock s)) ''name'' = Str [] \<and>
         formValues (snd (handleSubmit clock s)) ''email'' = Str [] \<and>
         formValues (snd (handleSubmit clock s)) ''birthDate'' = Undefined \<and>
         formValues (snd (handleSubmit clock s)) ''department'' = Undefined \<and>
         formValues (snd (handleSubmit clock s)) ''isActive'' = Bool False"
  using assms by (simp add: handleSubmit_success defaultValues_def)

theorem submit_valid_resets_form_witness:
  "\<exists>d. resolver (formValues (initial\<lparr>formValues := example_valid\<rparr>)) = ResolverSuccess d \<and>
     formValues (snd (handleSubmit \<lparr>Date_now = 7, new_Date = 8\<rparr>
        (initial\<lparr>formValues := example_valid\<rparr>))) = defaultValues \<and>
     formErrors (snd (handleSubmit \<lparr>Date_now = 7, new_Date = 8\<rparr>
        (initial\<lparr>formValues := example_valid\<rparr>))) = []"
proof -
  let ?s = "initial\<lparr>formValues := example_valid\<rparr>"
  obtain d where d: "resolver (formValues ?s) = ResolverSuccess d"
    using resolver_success_iff [of "formValues ?s"] example_valid_ok by auto
  from submit_valid_resets_form [OF d, of "\<lparr>Date_now = 7, new_Date = 8\<rparr>"] d
  show ?thesis by blast
qed

lemma ids_equal_iff_same_reading:
  assumes "resolver (formValues s) = ResolverSuccess d"
    and "resolver (formValues s') = ResolverSuccess d'"
  shows "entry_id (last (tableData (snd (handleSubmit clock s)))) =
           entry_id (last (tableData (snd (handleSubmit clock' s')))) \<longleftrightarrow>
         Date_now clock = Date_now clock'"
  by (simp add: handleSubmit_success [OF assms(1)] handleSubmit_success [OF assms(2)]
      Number_toString_inj)

text \<open>
  C2 (the code at a failing input). Two users submitted at the same reading of
  \<open>Date.now()\<close> get the same \<open>id\<close>: the table then holds two rows with one id.
\<close>

theorem same_clock_same_id:
  "map entry_id
     (tableData
        (snd (handleSubmit \<lparr>Date_now = 1700000000000, new_Date = 1700000000000\<rparr>
           (field_onChange ''name'' (Str ''Bo'')
              ((snd (handleSubmit \<lparr>Date_now = 1700000000000, new_Date = 1700000000000\<rparr>
                  (initial\<lparr>formValues := example_valid\<rparr>)))
                \<lparr>formValues := example_valid\<rparr>))))) =
   [''1700000000000'', ''1700000000000''] \<and>
   map name
     (tableData
        (snd (handleSubmit \<lparr>Date_now = 1700000000000, new_Date = 1700000000000\<rparr>
           (field_onChange ''name'' (Str ''Bo'')
              ((snd (handleSubmit \<lparr>Date_now = 1700000000000, new_Date = 1700000000000\<rparr>
                  (initial\<lparr>formValues := example_valid\<rparr>)))
                \<lparr>formValues := example_valid\<rparr>))))) =
   [''Al'', ''Bo'']"
proof -
  let ?c = "\<lparr>Date_now = 1700000000000, new_Date = 1700000000000\<rparr>"
  let ?first = "initial\<lparr>formValues := example_valid\<rparr>"
  let ?v2 = "example_valid(''name'' := Str ''Bo'')"
  have n: "Number_toString 1700000000000 = ''1700000000000''"
    by (simp add: Number_toString_def)
  obtain d1 where d1: "resolver (formValues ?first) = ResolverSuccess d1"
    using resolver_success_iff [of "formValues ?first"] example_valid_ok by auto
  have f1: "name d1 = ''Al''"
    using resolver_success_fields(1) [OF d1] by (simp add: example_valid_def)
  let ?second = "field_onChange ''name'' (Str ''Bo'')
      ((snd (handleSubmit ?c ?first))\<lparr>formValues := example_valid\<rparr>)"
  have v2: "formValues ?second = ?v2" by simp
  have "\<forall>k\<in>set shape_keys. \<not> violates ?v2 k"
    using example_valid_ok by (simp add: shape_keys_def violates_simps)
  then obtain d2 where d2: "resolver (formValues ?second) = ResolverSuccess d2"
    using resolver_success_iff [of ?v2] v2 by auto
  have f2: "name d2 = ''Bo''"
    using resolver_success_fields(1) [OF d2] by simp
  have t1: "tableData (snd (handleSubmit ?c ?first)) = [\<lparr>name = name d1, email = email d1, birthDate = birthDate d1,
            department = department d1, isActive = isActive d1,
            entry_id = ''1700000000000'', createdAt = ISOString 1700000000000\<rparr>]"
    unfolding handleSubmit_success [OF d1] by (simp add: initial_def n)
  show ?thesis
    unfolding handleSubmit_success [OF d2] by (simp add: t1 n f1 f2)
qed

subsection \<open>The table\<close>

lemma reachable_valid_dates:
  "reachable s \<Longrightarrow> \<forall>u\<in>set (tableData s). birthDate u \<noteq> InvalidDate"
proof (induction rule: reachable.induct)
  case init
  show ?case by (simp add: initial_def)
next
  case (change s k v)
  then show ?case by simp
next
  case (submit s clock)
  show ?case
  proof (cases "resolver (formValues s)")
    case (ResolverSuccess d)
    then show ?thesis
      using submit.IH resolver_success_fields(6) [OF ResolverSuccess]
      by (simp add: handleSubmit_success)
  next
    case (ResolverError errs)
    then show ?thesis
      using submit.IH by (simp add: handleSubmit_error)
  qed
qed

lemma user_row_valid:
  "birthDate u \<noteq> InvalidDate \<Longrightarrow> \<exists>row. user_row u = Inr row \<and> key row = Some (entry_id u)"
  by (cases "birthDate u"; cases "createdAt u") (simp_all add: user_row_def)

lemma map_rows_valid:
  "\<forall>u\<in>set tbl. birthDate u \<noteq> InvalidDate \<Longrightarrow>
   \<exists>rows. map_rows tbl = Inr rows \<and> list_all2 (\<lambda>u row. user_row u = Inr row) tbl rows"
proof (induction tbl)
  case Nil
  show ?case by simp
next
  case (Cons u tbl)
  then obtain rows where rows: "map_rows tbl = Inr rows"
    and all: "list_all2 (\<lambda>u row. user_row u = Inr row) tbl rows"
    by auto
  obtain row where row: "user_row u = Inr row"
    using Cons.prems user_row_valid [of u] by auto
  show ?case
    using rows all row by simp
qed

text \<open>
  C8. For the empty table the body shows exactly one row, the placeholder with its
  text. For the table of any state the application reaches, when it is not empty, the
  body shows one row for each record, in order, each the row of its record with the
  record's id as key. The body is computed from the table and returns rows only.
\<close>

theorem TableBody_rows:
  "TableBody [] =
     Inr [TableRow None
            [Text ''No users registered yet. Fill out the form above to add users.'']] \<and>
   (reachable s \<longrightarrow> tableData s \<noteq> [] \<longrightarrow>
      (\<exists>rows. TableBody (tableData s) = Inr rows \<and>
         length rows = length (tableData s) \<and>
         list_all2 (\<lambda>u row. user_row u = Inr row) (tableData s) rows \<and>
         map key rows = map (\<lambda>u. Some (entry_id u)) (tableData s)))"
proof (intro conjI impI)
  show "TableBody [] =
     Inr [TableRow None
            [Text ''No users registered yet. Fill out the form above to add users.'']]"
    by (simp add: TableBody_def)
next
  assume r: "reachable s" and ne: "tableData s \<noteq> []"
  obtain rows where rows: "map_rows (tableData s) = Inr rows"
    and all: "list_all2 (\<lambda>u row. user_row u = Inr row) (tableData s) rows"
    using map_rows_valid [OF reachable_valid_dates [OF r]] by auto
  have len: "length rows = length (tableData s)"
    using all by (simp add: list_all2_lengthD)
  have "map key rows = map (\<lambda>u. Some (entry_id u)) (tableData s)"
  proof (rule nth_equalityI)
    show "length (map key rows) = length (map (\<lambda>u. Some (entry_id u)) (tableData s))"
      using len by simp
  next
    fix i assume "i < length (map key rows)"
    then have i: "i < length (tableData s)" using len by simp
    then have ur: "user_row (tableData s ! i) = Inr (rows ! i)"
      using all by (simp add: list_all2_conv_all_nth)
    have "birthDate (tableData s ! i) \<noteq> InvalidDate"
      using reachable_valid_dates [OF r] i by simp
    then have "key (rows ! i) = Some (entry_id (tableData s ! i))"
      using user_row_valid [of "tableData s ! i"] ur by auto
    then show "map key rows ! i = map (\<lambda>u. Some (entry_id u)) (tableData s) ! i"
      using i len by simp
  qed
  then show "\<exists>rows. TableBody (tableData s) = Inr rows \<and>
         length rows = length (tableData s) \<and>
         list_all2 (\<lambda>u row. user_row u = Inr row) (tableData s) rows \<and>
         map key rows = map (\<lambda>u. Some (entry_id u)) (tableData s)"
    using rows all len ne by (intro exI [of _ rows]) (simp add: TableBody_def)
qed

theorem TableBody_rows_witness:
  "reachable (snd (handleSubmit \<lparr>Date_now = 5, new_Date = 6\<rparr>
      (field_onChange ''isActive'' (Bool True)
        (field_onChange ''department'' (Str ''engineering'')
          (field_onChange ''birthDate'' (DateVal (Date 946684800000))
            (field_onChange ''email'' (Str ''al@example.com'')
              (field_onChange ''name'' (Str ''Al'') initial))))))) \<and>
   TableBody (tableData (snd (handleSubmit \<lparr>Date_now = 5, new_Date = 6\<rparr>
      (field_onChange ''isActive'' (Bool True)
        (field_onChange ''department'' (Str ''engineering'')
          (field_onChange ''birthDate'' (DateVal (Date 946684800000))
            (field_onChange ''email'' (Str ''al@example.com'')
              (field_onChange ''name'' (Str ''Al'') initial)))))))) =
     Inr [TableRow (Some ''5'')
            [Text ''Al'', Text ''al@example.com'', Formatted ''PP'' 946684800000,
             Text ''engineering'', Text ''Active'', Formatted ''pp'' 6]]"
proof -
  let ?c = "\<lparr>Date_now = 5, new_Date = 6\<rparr>"
  let ?before = "field_onChange ''isActive'' (Bool True)
        (field_onChange ''department'' (Str ''engineering'')
          (field_onChange ''birthDate'' (DateVal (Date 946684800000))
            (field_onChange ''email'' (Str ''al@example.com'')
              (field_onChange ''name'' (Str ''Al'') initial))))"
  let ?after = "snd (handleSubmit ?c ?before)"
  have r: "reachable ?after"
    by (intro reachable.submit reachable.change reachable.init)
  have v: "formValues ?before = example_valid"
    by (simp add: initial_def defaultValues_def example_valid_def fun_eq_iff)
  obtain d where d: "resolver (formValues ?before) = ResolverSuccess d"
    using resolver_success_iff [of "formValues ?before"] example_valid_ok v by auto
  note f = resolver_success_fields [OF d, unfolded v]
  have n: "Number_toString 5 = ''5''"
    by (simp add: Number_toString_def)
  have t: "tableData ?after = [\<lparr>name = ''Al'', email = ''al@example.com'',
      birthDate = Date 946684800000, department = ''engineering'', isActive = True,
      entry_id = ''5'', createdAt = ISOString 6\<rparr>]"
    unfolding handleSubmit_success [OF d] using f
    by (simp add: initial_def example_valid_def n)
  then have ne: "tableData ?after \<noteq> []" by simp
  from TableBody_rows [of ?after] r ne
  obtain rows where "TableBody (tableData ?after) = Inr rows"
    and "list_all2 (\<lambda>u row. user_row u = Inr row) (tableData ?after) rows"
    by blast
  then have "TableBody (tableData ?after) =
     Inr [TableRow (Some ''5'')
            [Text ''Al'', Text ''al@example.com'', Formatted ''PP'' 946684800000,
             Text ''engineering'', Text ''Active'', Formatted ''pp'' 6]]"
    unfolding t by (auto simp: list_all2_Cons1 user_row_def)
  with r show ?thesis by (rule conjI)
qed

end
